theory Spec2Isabelle
  imports Complex_Main "HOL-Library.Char_ord"
begin

section \<open>Regular expressions of the pattern catalog\<close>

text \<open>
  The scanner of \<^verbatim>\<open>index.js\<close> recognises suspicious scripts with JavaScript regular
  expressions. The fragment it uses is small: literal characters, the classes \<^verbatim>\<open>.\<close> and
  \<^verbatim>\<open>\s\<close>, sequencing, alternation, \<^verbatim>\<open>?\<close>, \<^verbatim>\<open>*\<close> and \<^verbatim>\<open>+\<close>. Strings are lists of 8-bit
  code units.
\<close>

datatype rx =
    Eps
  | Lit char
  | Dot
  | Space
  | Seq rx rx
  | Alt rx rx
  | Opt rx
  | Star rx

text \<open>
  Case folding of the \<^verbatim>\<open>i\<close> flag: a code unit is compared through its upper-case form.
  Below 256 the letters with an upper-case partner are \<^verbatim>\<open>a\<close>..\<^verbatim>\<open>z\<close> and 0xE0..0xFE
  without 0xF7, always 32 above the partner.
\<close>

definition Canonicalize :: "char \<Rightarrow> char" where
  "Canonicalize c =
     (if (CHR ''a'' \<le> c \<and> c \<le> CHR ''z'') \<or> (CHR 0xE0 \<le> c \<and> c \<le> CHR 0xFE \<and> c \<noteq> CHR 0xF7)
      then char_of (of_char c - (32::nat)) else c)"

definition isLineTerminator :: "char \<Rightarrow> bool" where
  "isLineTerminator c = (c = CHR 0x0A \<or> c = CHR 0x0D)"

definition isWhiteSpace :: "char \<Rightarrow> bool" where
  "isWhiteSpace c = (c = CHR 0x09 \<or> c = CHR 0x0A \<or> c = CHR 0x0B \<or> c = CHR 0x0C \<or> c = CHR 0x0D
     \<or> c = CHR 0x20 \<or> c = CHR 0xA0)"

text \<open>
  \<open>rx_match ic r s\<close> lists, in the priority order of a backtracking matcher, what is left
  of \<open>s\<close> after each way of matching \<open>r\<close> at its start: greedy quantifiers try the longer
  match first, an alternation its left branch first. An iteration of \<^verbatim>\<open>?\<close> or \<^verbatim>\<open>*\<close> that
  consumes nothing is rejected, as the language definition requires.
\<close>

fun rx_match :: "bool \<Rightarrow> rx \<Rightarrow> string \<Rightarrow> string list" where
  "rx_match ic Eps s = [s]"
| "rx_match ic (Lit c) s =
     (case s of [] \<Rightarrow> []
      | x # xs \<Rightarrow> if (if ic then Canonicalize x = Canonicalize c else x = c) then [xs] else [])"
| "rx_match ic Dot s =
     (case s of [] \<Rightarrow> [] | x # xs \<Rightarrow> if isLineTerminator x then [] else [xs])"
| "rx_match ic Space s =
     (case s of [] \<Rightarrow> [] | x # xs \<Rightarrow> if isWhiteSpace x then [xs] else [])"
| "rx_match ic (Seq a b) s = concat (map (rx_match ic b) (rx_match ic a s))"
| "rx_match ic (Alt a b) s = rx_match ic a s @ rx_match ic b s"
| "rx_match ic (Opt a) s = filter (\<lambda>t. length t < length s) (rx_match ic a s) @ [s]"
| "rx_match ic (Star a) s =
     concat (map (\<lambda>t. if length t < length s then rx_match ic (Star a) t else [])
                 (rx_match ic a s)) @ [s]"

text \<open>\<^verbatim>\<open>a+\<close> is one \<^verbatim>\<open>a\<close> and then \<^verbatim>\<open>a*\<close>.\<close>

definition Plus :: "rx \<Rightarrow> rx" where
  "Plus a = Seq a (Star a)"

text \<open>
  The search of \<^verbatim>\<open>RegExp.prototype.exec\<close> from position \<open>i\<close>: the leftmost position where
  the pattern matches, with the text of the first match in priority order there.
\<close>

fun rx_exec :: "bool \<Rightarrow> rx \<Rightarrow> nat \<Rightarrow> string \<Rightarrow> (nat \<times> string) option" where
  "rx_exec ic r i s =
     (case rx_match ic r s of
        rest # _ \<Rightarrow> Some (i, take (length s - length rest) s)
      | [] \<Rightarrow> (case s of [] \<Rightarrow> None | _ # t \<Rightarrow> rx_exec ic r (Suc i) t))"

fun lit :: "string \<Rightarrow> rx" where
  "lit [] = Eps"
| "lit [c] = Lit c"
| "lit (c # cs) = Seq (Lit c) (lit cs)"

fun seqs :: "rx list \<Rightarrow> rx" where
  "seqs [] = Eps"
| "seqs [r] = r"
| "seqs (r # rs) = Seq r (seqs rs)"

text \<open>
  A \<^verbatim>\<open>RegExp\<close> object: its source text, the parsed pattern and the two flags the program
  uses.
\<close>

record regexp =
  source :: string
  body :: rx
  global :: bool
  ignoreCase :: bool

text \<open>
  \<^verbatim>\<open>RegExp.prototype.test\<close> on a regular expression without the \<^verbatim>\<open>g\<close> flag (the only use in
  the program): whether the pattern matches anywhere.
\<close>

definition test :: "regexp \<Rightarrow> string \<Rightarrow> bool" where
  "test re s = (rx_exec (ignoreCase re) (body re) 0 s \<noteq> None)"

text \<open>
  \<^verbatim>\<open>String.prototype.match\<close>. Without the \<^verbatim>\<open>g\<close> flag the result is the array of
  \<^verbatim>\<open>exec\<close>: element 0 is the matched text and the property \<^verbatim>\<open>index\<close> is its offset. With
  the \<^verbatim>\<open>g\<close> flag the result is the plain array of all matched texts, the first match at
  element 0, and it has no property \<^verbatim>\<open>index\<close> (reading it gives \<^verbatim>\<open>undefined\<close>, here
  \<open>None\<close>). The program reads element 0 and \<^verbatim>\<open>index\<close> only, so the array is modelled by
  these two. No match gives \<^verbatim>\<open>null\<close>.
\<close>

record match_array =
  elem0 :: string
  index :: "nat option"

definition String_match :: "string \<Rightarrow> regexp \<Rightarrow> match_array option" where
  "String_match s re =
     (case rx_exec (ignoreCase re) (body re) 0 s of
        None \<Rightarrow> None
      | Some (i, m) \<Rightarrow> Some \<lparr>elem0 = m, index = (if global re then None else Some i)\<rparr>)"

section \<open>JavaScript numbers and substrings\<close>

text \<open>
  The numbers of \<^verbatim>\<open>getContext\<close> are offsets into a string, or \<^verbatim>\<open>NaN\<close> when the
  arithmetic started from \<^verbatim>\<open>undefined\<close>.
\<close>

datatype jsnum = NaN | Num int

fun ToNumber :: "nat option \<Rightarrow> jsnum" where
  "ToNumber None = NaN"
| "ToNumber (Some i) = Num (int i)"

fun num_sub :: "jsnum \<Rightarrow> jsnum \<Rightarrow> jsnum" where
  "num_sub (Num a) (Num b) = Num (a - b)"
| "num_sub _ _ = NaN"

fun num_add :: "jsnum \<Rightarrow> jsnum \<Rightarrow> jsnum" where
  "num_add (Num a) (Num b) = Num (a + b)"
| "num_add _ _ = NaN"

fun Math_max :: "jsnum \<Rightarrow> jsnum \<Rightarrow> jsnum" where
  "Math_max (Num a) (Num b) = Num (max a b)"
| "Math_max _ _ = NaN"

fun Math_min :: "jsnum \<Rightarrow> jsnum \<Rightarrow> jsnum" where
  "Math_min (Num a) (Num b) = Num (min a b)"
| "Math_min _ _ = NaN"

text \<open>
  \<^verbatim>\<open>String.prototype.substring\<close>: \<^verbatim>\<open>NaN\<close> counts as 0, both bounds are clamped to the
  string and swapped when the first is the larger.
\<close>

fun clampIndex :: "string \<Rightarrow> jsnum \<Rightarrow> nat" where
  "clampIndex s NaN = 0"
| "clampIndex s (Num i) = min (nat i) (length s)"

definition substring :: "string \<Rightarrow> jsnum \<Rightarrow> jsnum \<Rightarrow> string" where
  "substring s a b =
     (let from = min (clampIndex s a) (clampIndex s b);
          to = max (clampIndex s a) (clampIndex s b)
      in take (to - from) (drop from s))"

section \<open>The pattern catalog\<close>

abbreviation bs :: char where
  "bs \<equiv> CHR 0x5C"

text \<open>
  \<^verbatim>\<open>this.suspiciousPatterns\<close> of the constructor, in its order and under the groups its
  comments name. Every entry carries the flags \<^verbatim>\<open>gi\<close>. \<open>bs\<close> is the backslash of the
  source texts.
\<close>

definition pat :: "string \<Rightarrow> rx \<Rightarrow> regexp" where
  "pat src r = \<lparr>source = src, body = r, global = True, ignoreCase = True\<rparr>"

definition optSync :: rx where
  "optSync = Opt (lit ''Sync'')"

definition call :: rx where
  "call = Seq (Star Space) (Lit CHR ''('')"

definition networkPatterns :: "regexp list" where
  "networkPatterns =
    [ pat (''fetch'' @ bs # ''s*'' @ bs # ''('') (Seq (lit ''fetch'') call)
    , pat (''axios'' @ bs # ''s*'' @ bs # ''('') (Seq (lit ''axios'') call)
    , pat (''https?:'' @ bs # ''/'' @ bs # ''/'')
          (seqs [lit ''http'', Opt (Lit CHR ''s''), lit ''://''])
    , pat (''webhook'' @ bs # ''.site'') (lit ''webhook.site'') ]"

definition fileSystemPatterns :: "regexp list" where
  "fileSystemPatterns =
    [ pat (''writeFile(Sync)?'' @ bs # ''s*'' @ bs # ''('') (seqs [lit ''writeFile'', optSync, call])
    , pat (''unlink(Sync)?'' @ bs # ''s*'' @ bs # ''('') (seqs [lit ''unlink'', optSync, call])
    , pat (''rmdir'' @ bs # ''s*'' @ bs # ''('') (Seq (lit ''rmdir'') call)
    , pat (''rm'' @ bs # ''s+-rf'') (seqs [lit ''rm'', Plus Space, lit ''-rf'']) ]"

definition shellPatterns :: "regexp list" where
  "shellPatterns =
    [ pat (''exec(Sync)?'' @ bs # ''s*'' @ bs # ''('') (seqs [lit ''exec'', optSync, call])
    , pat (''spawn(Sync)?'' @ bs # ''s*'' @ bs # ''('') (seqs [lit ''spawn'', optSync, call])
    , pat ''child_process'' (lit ''child_process'') ]"

definition envPatterns :: "regexp list" where
  "envPatterns =
    [ pat (''process'' @ bs # ''.env'') (lit ''process.env'')
    , pat (bs # ''.ssh'') (lit ''.ssh'')
    , pat (bs # ''.aws'') (lit ''.aws'')
    , pat (bs # ''.git'') (lit ''.git'') ]"

definition tokenPatterns :: "regexp list" where
  "tokenPatterns =
    [ pat ''github.*token'' (seqs [lit ''github'', Star Dot, lit ''token''])
    , pat ''npm.*token'' (seqs [lit ''npm'', Star Dot, lit ''token''])
    , pat ''api.*key'' (seqs [lit ''api'', Star Dot, lit ''key'']) ]"

definition obfuscationPatterns :: "regexp list" where
  "obfuscationPatterns =
    [ pat (''eval'' @ bs # ''s*'' @ bs # ''('') (Seq (lit ''eval'') call)
    , pat (''Function'' @ bs # ''s*'' @ bs # ''('') (Seq (lit ''Function'') call)
    , pat (''Buffer'' @ bs # ''.from.*base64'') (seqs [lit ''Buffer.from'', Star Dot, lit ''base64'']) ]"

definition cryptoPatterns :: "regexp list" where
  "cryptoPatterns =
    [ pat ''crypto.*wallet'' (seqs [lit ''crypto'', Star Dot, lit ''wallet''])
    , pat ''ethereum'' (lit ''ethereum'')
    , pat ''bitcoin'' (lit ''bitcoin'') ]"

definition bunPatterns :: "regexp list" where
  "bunPatterns =
    [ pat (''setup_bun'' @ bs # ''.js'') (lit ''setup_bun.js'')
    , pat (''bun_environment'' @ bs # ''.js'') (lit ''bun_environment.js'') ]"

definition suspiciousPatterns :: "regexp list" where
  "suspiciousPatterns =
     networkPatterns @ fileSystemPatterns @ shellPatterns @ envPatterns @ tokenPatterns
     @ obfuscationPatterns @ cryptoPatterns @ bunPatterns"

datatype risk = CRITICAL | HIGH | MEDIUM | LOW | SAFE

text \<open>\<^verbatim>\<open>this.riskScores\<close>.\<close>

fun riskScores :: "risk \<Rightarrow> int" where
  "riskScores CRITICAL = 100"
| "riskScores HIGH = 75"
| "riskScores MEDIUM = 50"
| "riskScores LOW = 25"
| "riskScores SAFE = 0"

section \<open>Package metadata and the file system\<close>

text \<open>
  A value produced by \<^verbatim>\<open>JSON.parse\<close>. An object lists its properties in insertion order,
  each key once.
\<close>

datatype json =
    JNull
  | JBool bool
  | JNumber real
  | JString string
  | JArray "json list"
  | JObject "(string \<times> json) list"

datatype error = NotFound | IOError | SyntaxError | TypeError

text \<open>
  Truthiness of a value in a condition and under \<^verbatim>\<open>||\<close>; \<^verbatim>\<open>undefined\<close> is \<open>None\<close>.
\<close>

fun ToBoolean :: "json option \<Rightarrow> bool" where
  "ToBoolean None = False"
| "ToBoolean (Some JNull) = False"
| "ToBoolean (Some (JBool b)) = b"
| "ToBoolean (Some (JNumber x)) = (x \<noteq> 0)"
| "ToBoolean (Some (JString s)) = (s \<noteq> [])"
| "ToBoolean (Some (JArray _)) = True"
| "ToBoolean (Some (JObject _)) = True"

text \<open>
  Reading a property. The program reads \<^verbatim>\<open>name\<close>, \<^verbatim>\<open>version\<close>, \<^verbatim>\<open>scripts\<close> and the six
  lifecycle names only; none of them is defined on the prototype of a string, number,
  boolean, array or object, so there the result is an own property or \<^verbatim>\<open>undefined\<close>.
  Reading a property of \<^verbatim>\<open>null\<close> throws.
\<close>

fun getProp :: "json \<Rightarrow> string \<Rightarrow> error + json option" where
  "getProp JNull k = Inl TypeError"
| "getProp (JObject ps) k = Inr (map_of ps k)"
| "getProp _ k = Inr None"

text \<open>
  A file's text is kept as \<^verbatim>\<open>JSON.parse\<close> sees it: text that is not JSON, or the value it
  parses to. A file may refuse to be read (\<open>File None\<close>). A directory holds its entries in
  the order \<^verbatim>\<open>readdirSync\<close> returns them, and it may refuse to be listed (\<open>Dir False\<close>);
  its entries are still reached by name.
\<close>

datatype content = NotJson | Json json

datatype node =
    File "content option"
  | Dir bool "(string \<times> node) list"

text \<open>
  A path is the list of its components below the root of the tree, and \<^verbatim>\<open>path.join\<close>
  appends components.
\<close>

type_synonym path = "string list"

fun lookup :: "node \<Rightarrow> path \<Rightarrow> node option" where
  "lookup n [] = Some n"
| "lookup n (x # xs) =
     (case n of
        File _ \<Rightarrow> None
      | Dir l es \<Rightarrow> (case map_of es x of None \<Rightarrow> None | Some m \<Rightarrow> lookup m xs))"

definition existsSync :: "node \<Rightarrow> path \<Rightarrow> bool" where
  "existsSync fs p = (lookup fs p \<noteq> None)"

definition readFileSync :: "node \<Rightarrow> path \<Rightarrow> error + content" where
  "readFileSync fs p =
     (case lookup fs p of
        Some (File (Some t)) \<Rightarrow> Inr t
      | _ \<Rightarrow> Inl IOError)"

definition JSON_parse :: "content \<Rightarrow> error + json" where
  "JSON_parse t = (case t of NotJson \<Rightarrow> Inl SyntaxError | Json j \<Rightarrow> Inr j)"

record dirent =
  name :: string
  isDirectory :: bool

fun isDir :: "node \<Rightarrow> bool" where
  "isDir (Dir _ _) = True"
| "isDir (File _) = False"

definition readdirSync :: "node \<Rightarrow> path \<Rightarrow> error + dirent list" where
  "readdirSync fs p =
     (case lookup fs p of
        Some (Dir True es) \<Rightarrow> Inr (map (\<lambda>(n, c). \<lparr>name = n, isDirectory = isDir c\<rparr>) es)
      | _ \<Rightarrow> Inl IOError)"

definition startsWith :: "string \<Rightarrow> string \<Rightarrow> bool" where
  "startsWith s pre = (take (length pre) s = pre)"

section \<open>The script analyzer\<close>

record match =
  pattern :: string
  matched :: string
  context' :: string

record analysis =
  scriptName :: string
  scriptContent :: string
  matches :: "match list"
  riskLevel :: risk
  risks :: "string list"
  score :: int

text \<open>
  \<^verbatim>\<open>getContext(content, index, radius)\<close>. The caller passes \<^verbatim>\<open>found.index\<close>, which may be
  \<^verbatim>\<open>undefined\<close>.
\<close>

definition getContext :: "string \<Rightarrow> nat option \<Rightarrow> int \<Rightarrow> string" where
  "getContext content idx radius =
     (let start = Math_max (Num 0) (num_sub (ToNumber idx) (Num radius));
          end' = Math_min (Num (int (length content))) (num_add (ToNumber idx) (Num radius))
      in substring content start end')"

text \<open>The loop over the catalog: one \<^verbatim>\<open>matches.push\<close> for each pattern that matches.\<close>

fun collectMatches :: "regexp list \<Rightarrow> string \<Rightarrow> match list" where
  "collectMatches [] sc = []"
| "collectMatches (p # ps) sc =
     (case String_match sc p of
        None \<Rightarrow> collectMatches ps sc
      | Some found \<Rightarrow>
          \<lparr>pattern = source p, matched = elem0 found,
           context' = getContext sc (index found) 50\<rparr>
          # collectMatches ps sc)"

text \<open>The four inline tests of the combination check; they carry the flag \<^verbatim>\<open>i\<close> only.\<close>

definition inl :: "rx \<Rightarrow> regexp" where
  "inl r = \<lparr>source = [], body = r, global = False, ignoreCase = True\<rparr>"

definition hasNetwork :: "string \<Rightarrow> bool" where
  "hasNetwork s =
     test (inl (Alt (lit ''fetch'') (Alt (lit ''axios'')
                 (seqs [lit ''http'', Opt (Lit CHR ''s''), lit ''://''])))) s"

definition hasEnv :: "string \<Rightarrow> bool" where
  "hasEnv s = test (inl (lit ''process.env'')) s"

definition hasExec :: "string \<Rightarrow> bool" where
  "hasExec s = test (inl (Alt (lit ''exec'') (Alt (lit ''spawn'') (lit ''child_process'')))) s"

definition hasObfuscation :: "string \<Rightarrow> bool" where
  "hasObfuscation s =
     test (inl (Alt (lit ''eval'') (Alt (lit ''Function('') (lit ''base64'')))) s"

definition countLevel :: "nat \<Rightarrow> risk" where
  "countLevel n =
     (if n \<ge> 5 then CRITICAL else if n \<ge> 3 then HIGH else if n \<ge> 1 then MEDIUM else LOW)"

definition combination :: "string \<Rightarrow> bool" where
  "combination s = ((hasNetwork s \<and> hasEnv s) \<or> (hasExec s \<and> hasObfuscation s))"

text \<open>
  \<^verbatim>\<open>analyzeScript(scriptName, scriptContent)\<close>. The caller passes whatever value the
  metadata binds to the lifecycle key. On a string the body runs as written. Any other
  value has no callable \<^verbatim>\<open>match\<close>, so the first \<^verbatim>\<open>scriptContent.match(pattern)\<close> throws a
  \<^verbatim>\<open>TypeError\<close>.
\<close>

fun analyzeScript :: "string \<Rightarrow> json \<Rightarrow> error + analysis" where
  "analyzeScript nm (JString sc) =
     (let ms = collectMatches suspiciousPatterns sc;
          level0 = countLevel (length ms);
          level = (if combination sc then CRITICAL else level0);
          risks0 = (if combination sc
                    then [''Combines network access with environment variable reading''] else []);
          risks1 = (if hasObfuscation sc
                    then risks0 @ [''Uses code obfuscation techniques''] else risks0)
      in Inr \<lparr>scriptName = nm, scriptContent = sc, matches = ms,
              riskLevel = level, risks = risks1, score = riskScores level\<rparr>)"
| "analyzeScript nm _ = Inl TypeError"

section \<open>Scanning one package\<close>

text \<open>
  A finding's fields \<^verbatim>\<open>type\<close> and \<^verbatim>\<open>matches\<close> are \<open>type'\<close> and \<open>matches'\<close> here.
\<close>

record finding =
  type' :: string
  severity :: risk
  script :: string
  message :: string
  details :: "string list"
  matches' :: "match list"

text \<open>
  The object \<^verbatim>\<open>results\<close> of \<^verbatim>\<open>scanPackageJson\<close>. Its \<^verbatim>\<open>scripts\<close> object is the list of its
  properties in insertion order.
\<close>

record scan_result =
  packageName :: json
  version :: json
  scripts :: "(string \<times> analysis) list"
  overallRisk :: risk
  totalMatches :: nat
  findings :: "finding list"

text \<open>
  \<^verbatim>\<open>obj[k] = v\<close>: an existing property keeps its place and takes the new value, a new one
  goes to the end.
\<close>

fun assign :: "(string \<times> 'a) list \<Rightarrow> string \<Rightarrow> 'a \<Rightarrow> (string \<times> 'a) list" where
  "assign [] k v = [(k, v)]"
| "assign ((k', v') # ps) k v = (if k' = k then (k, v) # ps else (k', v') # assign ps k v)"

text \<open>\<^verbatim>\<open>Math.max(...xs)\<close> on a list of integers; \<open>None\<close> is \<^verbatim>\<open>-Infinity\<close>, its value on no
  arguments.\<close>

fun Math_max_spread :: "int list \<Rightarrow> int option" where
  "Math_max_spread [] = None"
| "Math_max_spread (x # xs) =
     (case Math_max_spread xs of None \<Rightarrow> Some x | Some m \<Rightarrow> Some (max x m))"

definition geq :: "int option \<Rightarrow> int \<Rightarrow> bool" where
  "geq m x = (case m of None \<Rightarrow> False | Some v \<Rightarrow> v \<ge> x)"

definition calculateOverallRisk :: "scan_result \<Rightarrow> risk" where
  "calculateOverallRisk res =
     (let scriptAnalyses = map snd (scripts res) in
      if length scriptAnalyses = 0 then SAFE
      else let maxScore = Math_max_spread (map score scriptAnalyses) in
        if geq maxScore (riskScores CRITICAL) then CRITICAL
        else if geq maxScore (riskScores HIGH) then HIGH
        else if geq maxScore (riskScores MEDIUM) then MEDIUM
        else if geq maxScore (riskScores LOW) then LOW
        else SAFE)"

text \<open>Decimal text of a number, for the template string of a finding's message.\<close>

fun showNat :: "nat \<Rightarrow> string" where
  "showNat n =
     (if n < 10 then [char_of (48 + n)] else showNat (n div 10) @ [char_of (48 + n mod 10)])"

definition generateFindings :: "scan_result \<Rightarrow> finding list" where
  "generateFindings res =
     map (\<lambda>(scriptName, analysis).
            \<lparr>type' = ''lifecycle_script'',
             severity = riskLevel analysis,
             script = scriptName,
             message = scriptName @ '' script detected with ''
                       @ showNat (length (matches analysis)) @ '' suspicious pattern(s)'',
             details = risks analysis,
             matches' = matches analysis\<rparr>)
         (scripts res)"

definition dangerousScripts :: "string list" where
  "dangerousScripts =
     [''preinstall'', ''install'', ''postinstall'', ''preuninstall'', ''uninstall'', ''postuninstall'']"

text \<open>
  The loop over \<^verbatim>\<open>dangerousScripts\<close>, with \<^verbatim>\<open>packageJson.scripts\<close> in \<open>sc\<close> and the object
  \<^verbatim>\<open>results\<close> in \<open>res\<close>. An exception of the analyzer leaves the loop.
\<close>

fun scanScripts :: "json \<Rightarrow> string list \<Rightarrow> scan_result \<Rightarrow> error + scan_result" where
  "scanScripts sc [] res = Inr res"
| "scanScripts sc (k # ks) res =
     (case getProp sc k of
        Inl e \<Rightarrow> Inl e
      | Inr v \<Rightarrow>
          (case v of
             None \<Rightarrow> scanScripts sc ks res
           | Some content \<Rightarrow>
               if ToBoolean v then
                 (case analyzeScript k content of
                    Inl e \<Rightarrow> Inl e
                  | Inr a \<Rightarrow>
                      scanScripts sc ks
                        (res\<lparr>scripts := assign (scripts res) k a,
                             totalMatches := totalMatches res + length (matches a)\<rparr>))
               else scanScripts sc ks res))"

definition orUnknown :: "json option \<Rightarrow> json" where
  "orUnknown v = (case v of None \<Rightarrow> JString ''unknown''
                  | Some j \<Rightarrow> if ToBoolean v then j else JString ''unknown'')"

definition scanPackageJson :: "node \<Rightarrow> path \<Rightarrow> error + scan_result" where
  "scanPackageJson fs packageJsonPath =
     (if \<not> existsSync fs packageJsonPath then Inl NotFound
      else case readFileSync fs packageJsonPath of
        Inl e \<Rightarrow> Inl e
      | Inr txt \<Rightarrow>
      (case JSON_parse txt of
        Inl e \<Rightarrow> Inl e
      | Inr packageJson \<Rightarrow>
      (case getProp packageJson ''name'' of
        Inl e \<Rightarrow> Inl e
      | Inr nm \<Rightarrow>
      (case getProp packageJson ''version'' of
        Inl e \<Rightarrow> Inl e
      | Inr ver \<Rightarrow>
      (let res0 = \<lparr>packageName = orUnknown nm, version = orUnknown ver, scripts = [],
                   overallRisk = SAFE, totalMatches = 0, findings = []\<rparr> in
       case getProp packageJson ''scripts'' of
        Inl e \<Rightarrow> Inl e
      | Inr sc \<Rightarrow>
      (case (case sc of
               None \<Rightarrow> Inr res0
             | Some s \<Rightarrow> if ToBoolean sc then scanScripts s dangerousScripts res0 else Inr res0) of
         Inl e \<Rightarrow> Inl e
       | Inr res \<Rightarrow>
           (let res1 = res\<lparr>overallRisk := calculateOverallRisk res\<rparr>
            in Inr (res1\<lparr>findings := generateFindings res1\<rparr>))))))))"

section \<open>Walking a dependency directory\<close>

text \<open>
  The state of \<^verbatim>\<open>scanNodeModules\<close>: the array \<^verbatim>\<open>results\<close> it returns and, beside it, the
  log \<open>scanned\<close> of the paths it has handed to \<^verbatim>\<open>scanPackageJson\<close>.
\<close>

record walk =
  results :: "scan_result list"
  scanned :: "path list"

definition keep :: "scan_result \<Rightarrow> bool" where
  "keep scanResult = (overallRisk scanResult \<noteq> SAFE \<or> totalMatches scanResult > 0)"

text \<open>
  The block that both loops of \<^verbatim>\<open>scanNodeModules\<close> run on a candidate path: if the file
  exists, scan it inside \<^verbatim>\<open>try\<close>, push the result when it is worth reporting, and swallow
  any exception.
\<close>

definition tryScan :: "node \<Rightarrow> path \<Rightarrow> walk \<Rightarrow> walk" where
  "tryScan fs packageJsonPath st =
     (if existsSync fs packageJsonPath then
        (let st1 = st\<lparr>scanned := scanned st @ [packageJsonPath]\<rparr> in
         case scanPackageJson fs packageJsonPath of
           Inl err \<Rightarrow> st1
         | Inr scanResult \<Rightarrow>
             if keep scanResult then st1\<lparr>results := results st1 @ [scanResult]\<rparr> else st1)
      else st)"

fun scanScoped :: "node \<Rightarrow> path \<Rightarrow> dirent list \<Rightarrow> walk \<Rightarrow> walk" where
  "scanScoped fs scopedPath [] st = st"
| "scanScoped fs scopedPath (scopedPkg # rest) st =
     scanScoped fs scopedPath rest
       (tryScan fs (scopedPath @ [name scopedPkg, ''package.json'']) st)"

fun scanPackages :: "node \<Rightarrow> path \<Rightarrow> dirent list \<Rightarrow> walk \<Rightarrow> error + walk" where
  "scanPackages fs nodeModulesPath [] st = Inr st"
| "scanPackages fs nodeModulesPath (pkg # rest) st =
     (let st1 = tryScan fs (nodeModulesPath @ [name pkg, ''package.json'']) st in
      if startsWith (name pkg) ''@'' then
        (let scopedPath = nodeModulesPath @ [name pkg] in
         case readdirSync fs scopedPath of
           Inl e \<Rightarrow> Inl e
         | Inr ents \<Rightarrow>
             scanPackages fs nodeModulesPath rest
               (scanScoped fs scopedPath (filter isDirectory ents) st1))
      else scanPackages fs nodeModulesPath rest st1)"

definition scanNodeModules :: "node \<Rightarrow> path \<Rightarrow> error + walk" where
  "scanNodeModules fs nodeModulesPath =
     (let st0 = \<lparr>results = [], scanned = []\<rparr> in
      if \<not> existsSync fs nodeModulesPath then Inr st0
      else case readdirSync fs nodeModulesPath of
        Inl e \<Rightarrow> Inl e
      | Inr ents \<Rightarrow>
          scanPackages fs nodeModulesPath
            (filter (\<lambda>d. isDirectory d \<and> \<not> startsWith (name d) ''.'') ents) st0)"

section \<open>The tier order of the specification\<close>

text \<open>
  The specification orders the tiers CRITICAL > HIGH > MEDIUM > LOW > SAFE and speaks of
  the maximum tier of a list, SAFE for the empty list. These two definitions follow its
  words; the program computes with scores instead.
\<close>

fun spec_rank :: "risk \<Rightarrow> nat" where
  "spec_rank CRITICAL = 4"
| "spec_rank HIGH = 3"
| "spec_rank MEDIUM = 2"
| "spec_rank LOW = 1"
| "spec_rank SAFE = 0"

fun spec_maxTier :: "risk list \<Rightarrow> risk" where
  "spec_maxTier [] = SAFE"
| "spec_maxTier (t # ts) = (if spec_rank (spec_maxTier ts) \<le> spec_rank t then t else spec_maxTier ts)"

text \<open>Whether a script contains a token of a group of the catalog.\<close>

definition containsToken :: "regexp list \<Rightarrow> string \<Rightarrow> bool" where
  "containsToken ps s = list_ex (\<lambda>p. String_match s p \<noteq> None) ps"

text \<open>Whether a pattern matches at some position of a string.\<close>

definition occurs :: "bool \<Rightarrow> rx \<Rightarrow> string \<Rightarrow> bool" where
  "occurs ic r s = (\<exists>n. rx_match ic r (drop n s) \<noteq> [])"

section \<open>Auxiliary notions and example packages\<close>

text \<open>
  What every analysis recorded by \<^verbatim>\<open>scanPackageJson\<close> satisfies: its score is the score of
  its tier, and its tier is not SAFE.
\<close>

definition scored :: "(string \<times> analysis) list \<Rightarrow> bool" where
  "scored ps = (\<forall>a \<in> snd ` set ps. score a = riskScores (riskLevel a) \<and> riskLevel a \<noteq> SAFE)"

text \<open>The sum of the match counts of the recorded analyses.\<close>

definition matchSum :: "(string \<times> analysis) list \<Rightarrow> nat" where
  "matchSum ps = sum_list (map (\<lambda>(k, a). length (matches a)) ps)"

text \<open>
  A package directory whose \<^verbatim>\<open>package.json\<close> is
  \<^verbatim>\<open>{"name": "demo", "scripts": {"test": "jest", "install": "rm -rf /", "preinstall": "ls"}}\<close>.
\<close>

definition examplePackage :: node where
  "examplePackage =
     Dir True [(''package.json'', File (Some (Json (JObject
            [(''name'', JString ''demo''),
             (''scripts'', JObject [(''test'', JString ''jest''),
                                    (''install'', JString ''rm -rf /''),
                                    (''preinstall'', JString ''ls'')])]))))]"

text \<open>Whether a value is a string, the only kind of value that has a callable \<^verbatim>\<open>match\<close>.\<close>

fun isString :: "json \<Rightarrow> bool" where
  "isString (JString _) = True"
| "isString _ = False"

text \<open>
  Whether \<^verbatim>\<open>scripts\<close> is an object that binds the key to a truthy value that is not a
  string.
\<close>

definition badValue :: "json \<Rightarrow> string \<Rightarrow> bool" where
  "badValue s k = (case s of
      JObject sc \<Rightarrow> (case map_of sc k of None \<Rightarrow> False
                     | Some v \<Rightarrow> ToBoolean (Some v) \<and> \<not> isString v)
    | _ \<Rightarrow> False)"

text \<open>Whether the metadata binds some lifecycle key in that way.\<close>

definition malformedScripts :: "json \<Rightarrow> bool" where
  "malformedScripts j = (case j of
      JObject ps \<Rightarrow> (case map_of ps ''scripts'' of None \<Rightarrow> False
                     | Some s \<Rightarrow> list_ex (badValue s) dangerousScripts)
    | _ \<Rightarrow> False)"

text \<open>
  A package directory whose \<^verbatim>\<open>package.json\<close> is
  \<^verbatim>\<open>{"name": "broken", "scripts": {"preinstall": "ls", "install": 5}}\<close>.
\<close>

definition brokenPackage :: node where
  "brokenPackage =
     Dir True [(''package.json'', File (Some (Json (JObject
            [(''name'', JString ''broken''),
             (''scripts'', JObject [(''preinstall'', JString ''ls''),
                                    (''install'', JNumber 5)])]))))]"

section \<open>The calls of the walk, read off the tree\<close>

text \<open>
  The paths that the two loops of \<^verbatim>\<open>scanNodeModules\<close> hand to \<^verbatim>\<open>scanPackageJson\<close> when every
  listing succeeds, as a function of the entries of the root. The outer loop takes the
  directories whose name does not start with a dot and scans the \<^verbatim>\<open>package.json\<close> of each
  if it exists; this includes a directory whose name starts with \<^verbatim>\<open>@\<close>. For such a
  directory the inner loop then takes every subdirectory, dot-prefixed or not, and scans
  its \<^verbatim>\<open>package.json\<close> if it exists. A scanned file contributes its result if the result
  is worth reporting, and nothing if the scan throws.
\<close>

definition toDirent :: "string \<times> node \<Rightarrow> dirent" where
  "toDirent e = \<lparr>name = fst e, isDirectory = isDir (snd e)\<rparr>"




definition contribution :: "node \<Rightarrow> path \<Rightarrow> scan_result list" where
  "contribution fs p =
     (case scanPackageJson fs p of Inl e \<Rightarrow> [] | Inr r \<Rightarrow> if keep r then [r] else [])"











definition brokenEntries :: "(string \<times> node) list" where
  "brokenEntries =
     [(''bad-json'', Dir True [(''package.json'', File (Some NotJson))]),
      (''unreadable'', Dir True [(''package.json'', File None)]),
      (''no-metadata'', Dir True []),
      (''evil'', Dir True [(''package.json'', File (Some (Json (JObject
              [(''name'', JString ''evil''),
               (''scripts'', JObject [(''install'', JString ''rm -rf /'')])]))))])]"

definition brokenTree :: node where
  "brokenTree = Dir True [(''node_modules'', Dir True brokenEntries)]"

definition lockedEntries :: "(string \<times> node) list" where
  "lockedEntries =
     [(''@locked'', Dir False [(''pkg'', Dir True [(''package.json'', File (Some (Json (JObject
              [(''name'', JString ''@locked/pkg'')]))))])]),
      (''evil'', Dir True [(''package.json'', File (Some (Json (JObject
              [(''name'', JString ''evil''),
               (''scripts'', JObject [(''install'', JString ''rm -rf /'')])]))))])]"

definition lockedTree :: node where
  "lockedTree = Dir True [(''node_modules'', Dir True lockedEntries)]"





section \<open>Evaluation rules\<close>

text \<open>
  Case folding on the bits of a character, so that the simplifier runs the matcher on a
  concrete script without arithmetic.
\<close>

lemma Canonicalize_Char:
  "Canonicalize (Char b0 b1 b2 b3 b4 b5 b6 b7) =
     Char b0 b1 b2 b3 b4
       (b5 \<and> \<not> (b6 \<and> (b7 \<and> \<not> (b0 \<and> b1 \<and> b2 \<and> b4)
                        \<or> \<not> b7 \<and> (b0 \<or> b1 \<or> b2 \<or> b3 \<or> b4)
                              \<and> \<not> (b4 \<and> b3 \<and> (b2 \<or> (b1 \<and> b0))))))
       b6 b7"
  unfolding Canonicalize_def less_eq_char_def
  by (cases b0; cases b1; cases b2; cases b3; cases b4; cases b5; cases b6; cases b7;
      simp add: char_of_def bit_iff_odd)

lemmas catalog_defs = suspiciousPatterns_def networkPatterns_def fileSystemPatterns_def
  shellPatterns_def envPatterns_def tokenPatterns_def obfuscationPatterns_def cryptoPatterns_def
  bunPatterns_def pat_def optSync_def call_def

lemmas regex_eval = String_match_def test_def inl_def Canonicalize_Char isWhiteSpace_def
  isLineTerminator_def Plus_def

lemmas analyze_eval = catalog_defs regex_eval getContext_def substring_def hasNetwork_def
  hasEnv_def hasExec_def hasObfuscation_def combination_def countLevel_def Let_def

section \<open>Properties of the script analyzer\<close>

lemma collectMatches_length:
  "length (collectMatches ps s) = length (filter (\<lambda>p. String_match s p \<noteq> None) ps)"
  by (induction ps) (auto split: option.splits)

lemma analyzeScript_string:
  "analyzeScript nm (JString s) =
     Inr \<lparr>scriptName = nm, scriptContent = s,
          matches = collectMatches suspiciousPatterns s,
          riskLevel = (if combination s then CRITICAL
                       else countLevel (length (collectMatches suspiciousPatterns s))),
          risks = (if combination s
                   then [''Combines network access with environment variable reading''] else [])
                  @ (if hasObfuscation s then [''Uses code obfuscation techniques''] else []),
          score = riskScores (if combination s then CRITICAL
                              else countLevel (length (collectMatches suspiciousPatterns s)))\<rparr>"
  by (simp add: Let_def)

lemma countLevel_not_SAFE: "countLevel n \<noteq> SAFE"
  by (simp add: countLevel_def)

lemma spec_rank_le_CRITICAL: "spec_rank t \<le> spec_rank CRITICAL"
  by (cases t) simp_all

text \<open>
  The search finds a match exactly when the pattern matches at some position, and what a
  match leaves over is a suffix of the string. So a pattern that is a sequence occurs only
  where each of its parts occurs.
\<close>

lemma rx_exec_Nil:
  "rx_exec ic r i [] = (if rx_match ic r [] = [] then None else Some (i, []))"
  by (subst rx_exec.simps) (simp del: rx_exec.simps split: list.splits)

lemma rx_exec_Cons:
  "rx_exec ic r i (x # t) =
     (case rx_match ic r (x # t) of
        rest # _ \<Rightarrow> Some (i, take (length (x # t) - length rest) (x # t))
      | [] \<Rightarrow> rx_exec ic r (Suc i) t)"
  by (subst rx_exec.simps) (simp del: rx_exec.simps split: list.splits)

lemma occurs_Nil: "occurs ic r [] = (rx_match ic r [] \<noteq> [])"
  by (simp add: occurs_def)

lemma occurs_Cons: "occurs ic r (x # t) = (rx_match ic r (x # t) \<noteq> [] \<or> occurs ic r t)"
proof
  assume "occurs ic r (x # t)"
  then obtain n where n: "rx_match ic r (drop n (x # t)) \<noteq> []" by (auto simp: occurs_def)
  show "rx_match ic r (x # t) \<noteq> [] \<or> occurs ic r t"
  proof (cases n)
    case 0
    then show ?thesis using n by simp
  next
    case (Suc m)
    then have "rx_match ic r (drop m t) \<noteq> []" using n by simp
    then show ?thesis unfolding occurs_def by blast
  qed
next
  assume "rx_match ic r (x # t) \<noteq> [] \<or> occurs ic r t"
  then show "occurs ic r (x # t)"
  proof
    assume "rx_match ic r (x # t) \<noteq> []"
    then have "rx_match ic r (drop 0 (x # t)) \<noteq> []" by simp
    then show ?thesis unfolding occurs_def by blast
  next
    assume "occurs ic r t"
    then obtain m where "rx_match ic r (drop m t) \<noteq> []" by (auto simp: occurs_def)
    then have "rx_match ic r (drop (Suc m) (x # t)) \<noteq> []" by simp
    then show ?thesis unfolding occurs_def by blast
  qed
qed

lemma rx_exec_occurs: "(rx_exec ic r i s \<noteq> None) = occurs ic r s"
proof (induction s arbitrary: i)
  case Nil
  show ?case unfolding rx_exec_Nil occurs_Nil by simp
next
  case (Cons x t)
  show ?case
    unfolding rx_exec_Cons occurs_Cons using Cons.IH [of "Suc i"]
    by (cases "rx_match ic r (x # t)") (simp_all del: rx_exec.simps)
qed

lemma test_occurs: "test re s = occurs (ignoreCase re) (body re) s"
  unfolding test_def by (rule rx_exec_occurs)

lemma String_match_occurs: "(String_match s re \<noteq> None) = occurs (ignoreCase re) (body re) s"
  using rx_exec_occurs [of "ignoreCase re" "body re" 0 s]
  unfolding String_match_def
  by (cases "rx_exec (ignoreCase re) (body re) 0 s") (auto simp del: rx_exec.simps)

lemma rx_match_Star_mem:
  "u \<in> set (rx_match ic (Star a) s) =
     (u = s \<or> (\<exists>v \<in> set (rx_match ic a s). length v < length s \<and> u \<in> set (rx_match ic (Star a) v)))"
  by (subst rx_match.simps) (auto simp del: rx_match.simps split: if_splits)

lemma rx_match_drop: "u \<in> set (rx_match ic r t) \<Longrightarrow> \<exists>k. u = drop k t"
proof (induction ic r t arbitrary: u rule: rx_match.induct)
  case (1 ic s)
  then have "u = drop 0 s" by simp
  then show ?case by blast
next
  case (2 ic c s)
  then obtain x where "s = x # u" by (auto split: list.splits if_splits)
  then have "u = drop 1 s" by simp
  then show ?case by blast
next
  case (3 ic s)
  then obtain x where "s = x # u" by (auto split: list.splits if_splits)
  then have "u = drop 1 s" by simp
  then show ?case by blast
next
  case (4 ic s)
  then obtain x where "s = x # u" by (auto split: list.splits if_splits)
  then have "u = drop 1 s" by simp
  then show ?case by blast
next
  case (5 ic a b s)
  from "5.prems" obtain v where v: "v \<in> set (rx_match ic a s)" and u: "u \<in> set (rx_match ic b v)"
    by auto
  obtain k where "v = drop k s" using "5.IH"(1) [OF v] by blast
  moreover obtain j where "u = drop j v" using "5.IH"(2) [OF v u] by blast
  ultimately have "u = drop (j + k) s" by simp
  then show ?case by blast
next
  case (6 ic a b s)
  then show ?case by auto
next
  case (7 ic a s)
  from "7.prems" have "u \<in> set (rx_match ic a s) \<or> u = drop 0 s" by auto
  then show ?case using "7.IH" by blast
next
  case (8 ic a s)
  from "8.prems" have "u = s \<or>
     (\<exists>v \<in> set (rx_match ic a s). length v < length s \<and> u \<in> set (rx_match ic (Star a) v))"
    unfolding rx_match_Star_mem [of u ic a s] .
  then show ?case
  proof
    assume "u = s"
    then have "u = drop 0 s" by simp
    then show ?thesis by blast
  next
    assume "\<exists>v \<in> set (rx_match ic a s). length v < length s \<and> u \<in> set (rx_match ic (Star a) v)"
    then obtain v where v: "v \<in> set (rx_match ic a s)" "length v < length s"
      and u: "u \<in> set (rx_match ic (Star a) v)" by blast
    obtain k where "v = drop k s" using "8.IH"(1) [OF v(1)] by blast
    moreover obtain j where "u = drop j v" using "8.IH"(2) [OF v u] by blast
    ultimately have "u = drop (j + k) s" by simp
    then show ?thesis by blast
  qed
qed

lemma occurs_Seq1:
  assumes "occurs ic (Seq a b) s"
  shows "occurs ic a s"
proof -
  obtain n where "rx_match ic (Seq a b) (drop n s) \<noteq> []"
    using assms unfolding occurs_def by blast
  then have "rx_match ic a (drop n s) \<noteq> []" by auto
  then show ?thesis unfolding occurs_def by blast
qed

lemma occurs_Seq2:
  assumes "occurs ic (Seq a b) s"
  shows "occurs ic b s"
proof -
  obtain n where "rx_match ic (Seq a b) (drop n s) \<noteq> []"
    using assms unfolding occurs_def by blast
  then obtain v where v: "v \<in> set (rx_match ic a (drop n s))" and b: "rx_match ic b v \<noteq> []"
    by auto
  obtain k where "v = drop k (drop n s)" using rx_match_drop [OF v] by blast
  then have "rx_match ic b (drop (k + n) s) \<noteq> []" using b by simp
  then show ?thesis unfolding occurs_def by blast
qed

lemma occurs_Alt: "occurs ic (Alt a b) s = (occurs ic a s \<or> occurs ic b s)"
  unfolding occurs_def by auto

lemma String_match_pat: "(\<exists>y. String_match s (pat src r) = Some y) = occurs True r s"
  using String_match_occurs [of s "pat src r"] by (simp add: pat_def)

lemma test_inl: "test (inl r) s = occurs True r s"
  by (simp add: test_occurs inl_def)

lemma network_tokens:
  assumes "containsToken (butlast networkPatterns) s"
  shows "hasNetwork s"
proof -
  have "occurs True (Seq (lit ''fetch'') call) s \<or> occurs True (Seq (lit ''axios'') call) s
        \<or> occurs True (seqs [lit ''http'', Opt (Lit CHR ''s''), lit ''://'']) s"
    using assms unfolding containsToken_def networkPatterns_def
    by (simp add: String_match_pat del: lit.simps seqs.simps)
  then have "occurs True (lit ''fetch'') s \<or> occurs True (lit ''axios'') s
        \<or> occurs True (seqs [lit ''http'', Opt (Lit CHR ''s''), lit ''://'']) s"
    using occurs_Seq1 by blast
  then show ?thesis
    unfolding hasNetwork_def test_inl occurs_Alt .
qed

lemma env_token: "containsToken [hd envPatterns] s = hasEnv s"
  unfolding containsToken_def envPatterns_def hasEnv_def test_inl
  by (simp add: String_match_pat del: lit.simps)

lemma shell_tokens:
  assumes "containsToken shellPatterns s"
  shows "hasExec s"
proof -
  have "occurs True (Seq (lit ''exec'') (Seq optSync call)) s
        \<or> occurs True (Seq (lit ''spawn'') (Seq optSync call)) s
        \<or> occurs True (lit ''child_process'') s"
    using assms unfolding containsToken_def shellPatterns_def
    by (simp add: String_match_pat del: lit.simps)
  then have "occurs True (lit ''exec'') s \<or> occurs True (lit ''spawn'') s
        \<or> occurs True (lit ''child_process'') s"
    using occurs_Seq1 by blast
  then show ?thesis
    unfolding hasExec_def test_inl occurs_Alt .
qed

lemma obfuscation_tokens:
  assumes "containsToken [obfuscationPatterns ! 0, obfuscationPatterns ! 2] s"
  shows "hasObfuscation s"
proof -
  have "occurs True (Seq (lit ''eval'') call) s
        \<or> occurs True (Seq (lit ''Buffer.from'') (Seq (Star Dot) (lit ''base64''))) s"
    using assms unfolding containsToken_def obfuscationPatterns_def
    by (simp add: String_match_pat del: lit.simps)
  then have "occurs True (lit ''eval'') s \<or> occurs True (lit ''base64'') s"
    using occurs_Seq1 occurs_Seq2 by blast
  then show ?thesis
    unfolding hasObfuscation_def test_inl occurs_Alt by blast
qed

text \<open>
  C1, as the program has it. The override is decided by the four inline tests, not by the
  groups of the catalog: when the script contains \<^verbatim>\<open>fetch\<close>, \<^verbatim>\<open>axios\<close> or \<^verbatim>\<open>http://\<close>,
  \<^verbatim>\<open>https://\<close> together with \<^verbatim>\<open>process.env\<close>, or \<^verbatim>\<open>exec\<close>, \<^verbatim>\<open>spawn\<close> or
  \<^verbatim>\<open>child_process\<close> together with \<^verbatim>\<open>eval\<close>, \<^verbatim>\<open>Function(\<close> or \<^verbatim>\<open>base64\<close> (all without
  regard to case), the analysis has tier CRITICAL and score 100, and the combination note
  is the first of its notes, whatever the number of matches. Of the catalog this covers
  the network patterns other than \<^verbatim>\<open>webhook\.site\<close> together with \<^verbatim>\<open>process\.env\<close>, the first
  of the environment patterns, and every shell pattern together with the first or the
  third obfuscation pattern, \<^verbatim>\<open>eval\s*\(\<close> or \<^verbatim>\<open>Buffer\.from.*base64\<close>. In every analysis
  the tier is at least the tier that the number of matches alone gives.
\<close>

theorem analyzeScript_combination_override:
  "\<exists>a. analyzeScript nm (JString s) = Inr a \<and>
       ((hasNetwork s \<and> hasEnv s) \<or> (hasExec s \<and> hasObfuscation s)
        \<or> (containsToken (butlast networkPatterns) s \<and> containsToken [hd envPatterns] s)
        \<or> (containsToken shellPatterns s
            \<and> containsToken [obfuscationPatterns ! 0, obfuscationPatterns ! 2] s) \<longrightarrow>
          riskLevel a = CRITICAL \<and> score a = 100 \<and>
          risks a = ''Combines network access with environment variable reading''
                    # (if hasObfuscation s then [''Uses code obfuscation techniques''] else [])) \<and>
       spec_rank (countLevel (length (matches a))) \<le> spec_rank (riskLevel a)"
proof -
  have "combination s"
    if "(hasNetwork s \<and> hasEnv s) \<or> (hasExec s \<and> hasObfuscation s)
        \<or> (containsToken (butlast networkPatterns) s \<and> containsToken [hd envPatterns] s)
        \<or> (containsToken shellPatterns s
            \<and> containsToken [obfuscationPatterns ! 0, obfuscationPatterns ! 2] s)"
    using that network_tokens [of s] env_token [of s] shell_tokens [of s] obfuscation_tokens [of s]
    unfolding combination_def by blast
  then show ?thesis
    unfolding analyzeScript_string
    using spec_rank_le_CRITICAL [of "countLevel (length (collectMatches suspiciousPatterns s))"]
    by auto
qed

theorem analyzeScript_combination_override_witness:
  "hasNetwork ''fetch(process.env)'' \<and> hasEnv ''fetch(process.env)'' \<and>
   containsToken (butlast networkPatterns) ''fetch(process.env)'' \<and>
   containsToken [hd envPatterns] ''fetch(process.env)'' \<and>
   (\<exists>a. analyzeScript ''postinstall'' (JString ''fetch(process.env)'') = Inr a \<and>
        length (matches a) = 2 \<and> countLevel 2 = MEDIUM \<and>
        riskLevel a = CRITICAL \<and> score a = 100 \<and>
        risks a = [''Combines network access with environment variable reading''])"
  using analyzeScript_combination_override [of "''postinstall''" "''fetch(process.env)''"]
  by (simp add: containsToken_def analyze_eval)

text \<open>
  C1 as stated fails: a script with the network token \<^verbatim>\<open>webhook.site\<close> and the credential
  token \<^verbatim>\<open>process.env\<close> of the catalog, and one with the shell token \<^verbatim>\<open>exec(\<close> and the
  obfuscation token \<^verbatim>\<open>Function (\<close>, both stay at the tier MEDIUM of their two matches.
\<close>

theorem analyzeScript_combination_counterexample:
  "containsToken networkPatterns ''webhook.site process.env'' \<and>
   containsToken envPatterns ''webhook.site process.env'' \<and>
   map_sum id riskLevel
     (analyzeScript ''postinstall'' (JString ''webhook.site process.env'')) = Inr MEDIUM \<and>
   containsToken shellPatterns ''exec(Function (c))'' \<and>
   containsToken obfuscationPatterns ''exec(Function (c))'' \<and>
   map_sum id riskLevel
     (analyzeScript ''postinstall'' (JString ''exec(Function (c))'')) = Inr MEDIUM"
  by (simp add: containsToken_def analyze_eval)

text \<open>
  C3 at the script \<^verbatim>\<open>x fetch(1)\<close>. The catalog patterns carry the flag \<^verbatim>\<open>g\<close>, so the array
  that \<^verbatim>\<open>match\<close> returns has no \<^verbatim>\<open>index\<close>; \<^verbatim>\<open>getContext\<close> computes with \<^verbatim>\<open>NaN\<close> and the
  recorded context is the empty string. With the offset 2 of the occurrence, \<^verbatim>\<open>getContext\<close>
  gives the whole script, which lies within 50 characters of the occurrence.
\<close>

theorem analyzeScript_context_lost:
  "String_match ''x fetch(1)'' (hd suspiciousPatterns) = Some \<lparr>elem0 = ''fetch('', index = None\<rparr> \<and>
   analyzeScript ''install'' (JString ''x fetch(1)'') =
     Inr \<lparr>scriptName = ''install'', scriptContent = ''x fetch(1)'',
          matches = [\<lparr>pattern = ''fetch'' @ bs # ''s*'' @ bs # ''('', matched = ''fetch('',
                      context' = []\<rparr>],
          riskLevel = MEDIUM, risks = [], score = 50\<rparr> \<and>
   getContext ''x fetch(1)'' (Some 2) 50 = ''x fetch(1)''"
  by (simp add: analyze_eval)

lemma distinct_sources: "distinct (map source suspiciousPatterns)"
  by (simp add: catalog_defs)

text \<open>
  C4, as the program has it. The override is decided by the inline tests. When neither
  pair of them matches, the analysis of a script has as many matches as there are catalog
  patterns matching it (the catalog has no pattern twice), its tier follows from that
  number alone: CRITICAL from 5, HIGH for 3 or 4, MEDIUM for 1 or 2, LOW for 0, never
  SAFE; its score is the score of that tier, and its only possible note is the one on
  obfuscation. In every analysis the tier differs from the tier of the number of matches
  only if a pair of inline tests matches. The script \<^verbatim>\<open>echo hello\<close> has no match, tier LOW
  and no notes.
\<close>

theorem analyzeScript_count_tier:
  "(\<not> ((hasNetwork s \<and> hasEnv s) \<or> (hasExec s \<and> hasObfuscation s)) \<longrightarrow>
      (\<exists>a. analyzeScript nm (JString s) = Inr a \<and>
           length (matches a) = length (filter (\<lambda>p. String_match s p \<noteq> None) suspiciousPatterns) \<and>
           (5 \<le> length (matches a) \<longrightarrow> riskLevel a = CRITICAL) \<and>
           (3 \<le> length (matches a) \<and> length (matches a) \<le> 4 \<longrightarrow> riskLevel a = HIGH) \<and>
           (1 \<le> length (matches a) \<and> length (matches a) \<le> 2 \<longrightarrow> riskLevel a = MEDIUM) \<and>
           (length (matches a) = 0 \<longrightarrow> riskLevel a = LOW) \<and>
           riskLevel a \<noteq> SAFE \<and>
           score a = riskScores (riskLevel a) \<and>
           risks a = (if hasObfuscation s then [''Uses code obfuscation techniques''] else []))) \<and>
   (\<exists>a. analyzeScript nm (JString s) = Inr a \<and>
        (riskLevel a \<noteq> countLevel (length (matches a)) \<longrightarrow>
           (hasNetwork s \<and> hasEnv s) \<or> (hasExec s \<and> hasObfuscation s))) \<and>
   distinct (map source suspiciousPatterns) \<and>
   analyzeScript nm (JString ''echo hello'') =
     Inr \<lparr>scriptName = nm, scriptContent = ''echo hello'', matches = [],
          riskLevel = LOW, risks = [], score = 25\<rparr>"
proof -
  have "analyzeScript nm (JString ''echo hello'') =
     Inr \<lparr>scriptName = nm, scriptContent = ''echo hello'', matches = [],
          riskLevel = LOW, risks = [], score = 25\<rparr>"
    by (simp add: analyze_eval)
  moreover have "\<not> combination s \<Longrightarrow>
      (\<exists>a. analyzeScript nm (JString s) = Inr a \<and>
           length (matches a) = length (filter (\<lambda>p. String_match s p \<noteq> None) suspiciousPatterns) \<and>
           (5 \<le> length (matches a) \<longrightarrow> riskLevel a = CRITICAL) \<and>
           (3 \<le> length (matches a) \<and> length (matches a) \<le> 4 \<longrightarrow> riskLevel a = HIGH) \<and>
           (1 \<le> length (matches a) \<and> length (matches a) \<le> 2 \<longrightarrow> riskLevel a = MEDIUM) \<and>
           (length (matches a) = 0 \<longrightarrow> riskLevel a = LOW) \<and>
           riskLevel a \<noteq> SAFE \<and>
           score a = riskScores (riskLevel a) \<and>
           risks a = (if hasObfuscation s then [''Uses code obfuscation techniques''] else []))"
    unfolding analyzeScript_string
    using collectMatches_length [of suspiciousPatterns s] by (auto simp: countLevel_def)
  moreover have "\<exists>a. analyzeScript nm (JString s) = Inr a \<and>
        (riskLevel a \<noteq> countLevel (length (matches a)) \<longrightarrow> combination s)"
    unfolding analyzeScript_string by simp
  ultimately show ?thesis
    using distinct_sources unfolding combination_def by blast
qed

theorem analyzeScript_count_tier_witness:
  "\<not> ((hasNetwork ''rm -rf /'' \<and> hasEnv ''rm -rf /'') \<or>
      (hasExec ''rm -rf /'' \<and> hasObfuscation ''rm -rf /'')) \<and>
   (\<exists>a. analyzeScript ''preinstall'' (JString ''rm -rf /'') = Inr a \<and>
        length (matches a) = 1 \<and> riskLevel a = MEDIUM)"
  using analyzeScript_count_tier [of "''rm -rf /''" "''preinstall''"]
  by (simp add: analyze_eval)

text \<open>
  C4 as stated fails: the script \<^verbatim>\<open>spawn base64\<close> matches no pattern of the catalog, so no
  combination of catalog categories is present and the number of matches is 0, yet its
  tier is CRITICAL, not LOW.
\<close>

theorem analyzeScript_count_tier_counterexample:
  "\<not> containsToken suspiciousPatterns ''spawn base64'' \<and>
   \<not> containsToken shellPatterns ''spawn base64'' \<and>
   \<not> containsToken obfuscationPatterns ''spawn base64'' \<and>
   analyzeScript ''install'' (JString ''spawn base64'') =
     Inr \<lparr>scriptName = ''install'', scriptContent = ''spawn base64'', matches = [],
          riskLevel = CRITICAL,
          risks = [''Combines network access with environment variable reading'',
                   ''Uses code obfuscation techniques''],
          score = 100\<rparr>"
  by (simp add: containsToken_def analyze_eval)

section \<open>Properties of the package scan\<close>

lemma assign_set: "set (assign ps k v) \<subseteq> insert (k, v) (set ps)"
  by (induction ps) (auto split: if_splits)

lemma assign_fresh: "k \<notin> fst ` set ps \<Longrightarrow> assign ps k v = ps @ [(k, v)]"
  by (induction ps) auto

lemma analyzeScript_scored:
  "analyzeScript k c = Inr a \<Longrightarrow> score a = riskScores (riskLevel a) \<and> riskLevel a \<noteq> SAFE"
  by (cases c) (auto simp: Let_def countLevel_not_SAFE split: if_splits)

lemma scored_assign:
  "scored ps \<Longrightarrow> analyzeScript k c = Inr a \<Longrightarrow> scored (assign ps k a)"
  using assign_set [of ps k a] analyzeScript_scored [of k c a]
  unfolding scored_def by fastforce

lemma scanScripts_scored:
  "scanScripts sc ks res = Inr res' \<Longrightarrow> scored (scripts res) \<Longrightarrow> scored (scripts res')"
proof (induction ks arbitrary: res)
  case Nil
  then show ?case by simp
next
  case (Cons k ks)
  then show ?case
    by (auto split: sum.splits option.splits if_splits dest: scored_assign)
qed

lemma scanScripts_totalMatches:
  "scanScripts sc ks res = Inr res' \<Longrightarrow> distinct ks \<Longrightarrow> fst ` set (scripts res) \<inter> set ks = {}
   \<Longrightarrow> totalMatches res = matchSum (scripts res)
   \<Longrightarrow> totalMatches res' = matchSum (scripts res')"
proof (induction ks arbitrary: res)
  case Nil
  then show ?case by simp
next
  case (Cons k ks)
  have fresh: "k \<notin> fst ` set (scripts res)"
    using Cons.prems(3) by auto
  show ?case
  proof (cases "getProp sc k")
    case (Inl e)
    with Cons.prems(1) show ?thesis by simp
  next
    case (Inr v)
    show ?thesis
    proof (cases "\<exists>c a. v = Some c \<and> ToBoolean v \<and> analyzeScript k c = Inr a")
      case True
      then obtain c a where v: "v = Some c" "ToBoolean v" "analyzeScript k c = Inr a" by blast
      let ?res1 = "res\<lparr>scripts := assign (scripts res) k a,
                        totalMatches := totalMatches res + length (matches a)\<rparr>"
      have run: "scanScripts sc ks ?res1 = Inr res'"
        using Cons.prems(1) Inr v by simp
      have app: "scripts ?res1 = scripts res @ [(k, a)]"
        using fresh by (simp add: assign_fresh)
      have "fst ` set (scripts ?res1) \<inter> set ks = {}"
        using Cons.prems(2,3) unfolding app by auto
      moreover have "totalMatches ?res1 = matchSum (scripts ?res1)"
        unfolding app using Cons.prems(4) by (simp add: matchSum_def)
      ultimately show ?thesis
        using Cons.IH [OF run] Cons.prems(2) by simp
    next
      case False
      then have run: "scanScripts sc ks res = Inr res'"
        using Cons.prems(1) Inr by (auto split: option.splits if_splits sum.splits)
      have "fst ` set (scripts res) \<inter> set ks = {}"
        using Cons.prems(3) by auto
      then show ?thesis
        using Cons.IH [OF run] Cons.prems(2,4) by simp
    qed
  qed
qed

lemma riskScores_mono: "(riskScores a \<le> riskScores b) = (spec_rank a \<le> spec_rank b)"
  by (cases a; cases b) simp_all

lemma Math_max_spread_scored:
  "\<forall>a \<in> set as. score a = riskScores (riskLevel a) \<Longrightarrow> as \<noteq> [] \<Longrightarrow>
   Math_max_spread (map score as) = Some (riskScores (spec_maxTier (map riskLevel as)))"
proof (induction as)
  case Nil
  then show ?case by simp
next
  case (Cons a as)
  show ?case
  proof (cases "as = []")
    case True
    then show ?thesis using Cons.prems by (cases "riskLevel a") simp_all
  next
    case False
    then have "Math_max_spread (map score as) = Some (riskScores (spec_maxTier (map riskLevel as)))"
      using Cons by simp
    then show ?thesis
      using Cons.prems(1) riskScores_mono [of "spec_maxTier (map riskLevel as)" "riskLevel a"]
      by (auto simp: max_def)
  qed
qed

lemma tier_of_score:
  "(if geq (Some (riskScores t)) 100 then CRITICAL
    else if geq (Some (riskScores t)) 75 then HIGH
    else if geq (Some (riskScores t)) 50 then MEDIUM
    else if geq (Some (riskScores t)) 25 then LOW
    else SAFE) = t"
  by (cases t) (simp_all add: geq_def)

lemma calculateOverallRisk_spec:
  assumes "scored (scripts res)"
  shows "calculateOverallRisk res = spec_maxTier (map (riskLevel \<circ> snd) (scripts res))"
proof (cases "scripts res = []")
  case True
  then show ?thesis by (simp add: calculateOverallRisk_def)
next
  case False
  have "\<forall>a \<in> set (map snd (scripts res)). score a = riskScores (riskLevel a)"
    using assms unfolding scored_def by simp
  then have "Math_max_spread (map score (map snd (scripts res)))
        = Some (riskScores (spec_maxTier (map riskLevel (map snd (scripts res)))))"
    using False by (intro Math_max_spread_scored) simp_all
  then have m: "Math_max_spread (map (score \<circ> snd) (scripts res))
        = Some (riskScores (spec_maxTier (map (riskLevel \<circ> snd) (scripts res))))"
    by simp
  have "calculateOverallRisk res =
    (if geq (Math_max_spread (map (score \<circ> snd) (scripts res))) 100 then CRITICAL
    else if geq (Math_max_spread (map (score \<circ> snd) (scripts res))) 75 then HIGH
    else if geq (Math_max_spread (map (score \<circ> snd) (scripts res))) 50 then MEDIUM
    else if geq (Math_max_spread (map (score \<circ> snd) (scripts res))) 25 then LOW
    else SAFE)"
    using False by (simp add: calculateOverallRisk_def Let_def)
  then show ?thesis
    unfolding m tier_of_score .
qed

lemma spec_maxTier_mem: "ts \<noteq> [] \<Longrightarrow> spec_maxTier ts \<in> set ts"
proof (induction ts)
  case Nil
  then show ?case by simp
next
  case (Cons t ts)
  then show ?case by (cases "ts = []") auto
qed

lemma spec_maxTier_SAFE:
  "scored ps \<Longrightarrow> (spec_maxTier (map (riskLevel \<circ> snd) ps) = SAFE) = (ps = [])"
proof (cases "ps = []")
  case True
  then show ?thesis by simp
next
  case False
  assume "scored ps"
  moreover have "spec_maxTier (map (riskLevel \<circ> snd) ps) \<in> set (map (riskLevel \<circ> snd) ps)"
    using False by (intro spec_maxTier_mem) simp
  ultimately show ?thesis
    using False unfolding scored_def by auto
qed

lemma distinct_dangerousScripts: "distinct dangerousScripts"
  by (simp add: dangerousScripts_def)

lemma scanPackageJson_shape:
  assumes "scanPackageJson fs p = Inr r"
  shows "\<exists>res res0. r = (res\<lparr>overallRisk := calculateOverallRisk res\<rparr>)
                        \<lparr>findings := generateFindings (res\<lparr>overallRisk := calculateOverallRisk res\<rparr>)\<rparr>
           \<and> scripts res0 = [] \<and> totalMatches res0 = 0
           \<and> (res = res0 \<or> (\<exists>sc. scanScripts sc dangerousScripts res0 = Inr res))"
proof -
  obtain nm ver sc res where
    inner: "(case sc of
               None \<Rightarrow> Inr \<lparr>packageName = orUnknown nm, version = orUnknown ver, scripts = [],
                              overallRisk = SAFE, totalMatches = 0, findings = []\<rparr>
             | Some s \<Rightarrow> if ToBoolean sc then scanScripts s dangerousScripts
                             \<lparr>packageName = orUnknown nm, version = orUnknown ver, scripts = [],
                              overallRisk = SAFE, totalMatches = 0, findings = []\<rparr>
                           else Inr \<lparr>packageName = orUnknown nm, version = orUnknown ver, scripts = [],
                              overallRisk = SAFE, totalMatches = 0, findings = []\<rparr>) = Inr res"
    and r: "r = (res\<lparr>overallRisk := calculateOverallRisk res\<rparr>)
                        \<lparr>findings := generateFindings (res\<lparr>overallRisk := calculateOverallRisk res\<rparr>)\<rparr>"
    using assms unfolding scanPackageJson_def Let_def
    by (auto split: if_splits sum.splits)
  let ?res0 = "\<lparr>packageName = orUnknown nm, version = orUnknown ver, scripts = [],
                 overallRisk = SAFE, totalMatches = 0, findings = []\<rparr>"
  have "res = ?res0 \<or> (\<exists>sc. scanScripts sc dangerousScripts ?res0 = Inr res)"
    using inner by (auto split: option.splits if_splits)
  moreover have "scripts ?res0 = [] \<and> totalMatches ?res0 = 0" by simp
  ultimately show ?thesis using r by blast
qed

lemma scanPackageJson_result:
  assumes "scanPackageJson fs p = Inr r"
  shows "scored (scripts r) \<and> totalMatches r = matchSum (scripts r) \<and>
         overallRisk r = calculateOverallRisk r"
proof -
  obtain res res0 where r: "r = (res\<lparr>overallRisk := calculateOverallRisk res\<rparr>)
                        \<lparr>findings := generateFindings (res\<lparr>overallRisk := calculateOverallRisk res\<rparr>)\<rparr>"
    and res0: "scripts res0 = []" "totalMatches res0 = 0"
    and run: "res = res0 \<or> (\<exists>sc. scanScripts sc dangerousScripts res0 = Inr res)"
    using scanPackageJson_shape [OF assms] by blast
  have "scored (scripts res) \<and> totalMatches res = matchSum (scripts res)"
  proof (cases "res = res0")
    case True
    then show ?thesis using res0 by (simp add: scored_def matchSum_def)
  next
    case False
    then obtain sc where sc: "scanScripts sc dangerousScripts res0 = Inr res"
      using run by blast
    have "scored (scripts res)"
      using scanScripts_scored [OF sc] res0 by (simp add: scored_def)
    moreover have "totalMatches res = matchSum (scripts res)"
      using scanScripts_totalMatches [OF sc distinct_dangerousScripts] res0
      by (simp add: matchSum_def)
    ultimately show ?thesis by simp
  qed
  then show ?thesis
    unfolding r by (simp add: calculateOverallRisk_def)
qed

lemmas scan_eval = scanPackageJson_def existsSync_def readFileSync_def JSON_parse_def
  dangerousScripts_def orUnknown_def calculateOverallRisk_def generateFindings_def geq_def

lemma examplePackage_scan:
  "(case scanPackageJson examplePackage [''package.json''] of
      Inl e \<Rightarrow> False
    | Inr r \<Rightarrow>
       map fst (scripts r) = [''preinstall'', ''install''] \<and>
       map (riskLevel \<circ> snd) (scripts r) = [LOW, MEDIUM] \<and>
       map (length \<circ> matches \<circ> snd) (scripts r) = [0, 1] \<and>
       overallRisk r = MEDIUM \<and> totalMatches r = 1)"
  by (simp add: examplePackage_def scan_eval analyze_eval)

text \<open>
  C2. In every result of \<^verbatim>\<open>scanPackageJson\<close> the overall risk is the maximum, in the order
  CRITICAL > HIGH > MEDIUM > LOW > SAFE, of the tiers of the recorded analyses, and it is
  SAFE exactly when no lifecycle script was recorded.
\<close>

theorem scanPackageJson_overallRisk:
  assumes "scanPackageJson fs p = Inr r"
  shows "overallRisk r = spec_maxTier (map (riskLevel \<circ> snd) (scripts r)) \<and>
         (overallRisk r = SAFE \<longleftrightarrow> scripts r = [])"
  using scanPackageJson_result [OF assms] calculateOverallRisk_spec [of r]
    spec_maxTier_SAFE [of "scripts r"]
  by simp

theorem scanPackageJson_overallRisk_witness:
  "\<exists>r. scanPackageJson examplePackage [''package.json''] = Inr r \<and>
       map (riskLevel \<circ> snd) (scripts r) = [LOW, MEDIUM] \<and>
       overallRisk r = MEDIUM \<and> spec_maxTier [LOW, MEDIUM] = MEDIUM \<and> scripts r \<noteq> []"
proof -
  obtain r where r: "scanPackageJson examplePackage [''package.json''] = Inr r"
    and tiers: "map (riskLevel \<circ> snd) (scripts r) = [LOW, MEDIUM]"
    using examplePackage_scan
    by (cases "scanPackageJson examplePackage [''package.json'']") simp_all
  have "overallRisk r = MEDIUM \<and> scripts r \<noteq> []"
    using scanPackageJson_overallRisk [OF r] unfolding tiers by auto
  then show ?thesis
    using r tiers by simp
qed

text \<open>
  C5. In every result of \<^verbatim>\<open>scanPackageJson\<close> the total number of matches is the sum of the
  lengths of the match lists of the recorded analyses.
\<close>

theorem scanPackageJson_totalMatches:
  assumes "scanPackageJson fs p = Inr r"
  shows "totalMatches r = sum_list (map (\<lambda>(k, a). length (matches a)) (scripts r))"
  using scanPackageJson_result [OF assms] by (simp add: matchSum_def)

theorem scanPackageJson_totalMatches_witness:
  "\<exists>r. scanPackageJson examplePackage [''package.json''] = Inr r \<and>
       map (length \<circ> matches \<circ> snd) (scripts r) = [0, 1] \<and> totalMatches r = 1"
proof -
  obtain r where r: "scanPackageJson examplePackage [''package.json''] = Inr r"
    and lens: "map (length \<circ> matches \<circ> snd) (scripts r) = [0, 1]"
    using examplePackage_scan
    by (cases "scanPackageJson examplePackage [''package.json'']") simp_all
  have "(\<lambda>(k, a). length (matches a)) = (length \<circ> matches \<circ> snd :: string \<times> analysis \<Rightarrow> nat)"
    by auto
  then have "totalMatches r = 1"
    using scanPackageJson_totalMatches [OF r] lens by simp
  then show ?thesis
    using r lens by simp
qed

section \<open>Errors of the package scan\<close>

lemma analyzeScript_Inr_iff: "(\<exists>a. analyzeScript k c = Inr a) = isString c"
  by (cases c) (simp_all add: Let_def)

lemma analyzeScript_Inl: "analyzeScript k c = Inl e \<Longrightarrow> e = TypeError \<and> \<not> isString c"
  by (cases c) (simp_all add: Let_def)

lemma analyzeScript_not_string: "\<not> isString c \<Longrightarrow> analyzeScript k c = Inl TypeError"
  by (cases c) simp_all

lemma scanScripts_bad:
  "s \<noteq> JNull \<Longrightarrow> list_ex (badValue s) ks \<Longrightarrow> scanScripts s ks res = Inl TypeError"
proof (induction ks arbitrary: res)
  case Nil
  then show ?case by simp
next
  case (Cons k ks)
  show ?case
  proof (cases "badValue s k")
    case True
    then show ?thesis
      by (cases s) (auto simp: badValue_def analyzeScript_not_string split: option.splits)
  next
    case False
    then have "list_ex (badValue s) ks" using Cons.prems(2) by simp
    then have IH: "scanScripts s ks r = Inl TypeError" for r
      using Cons.IH Cons.prems(1) by simp
    show ?thesis
    proof (cases "scanScripts s (k # ks) res")
      case (Inl e)
      have "e = TypeError"
      proof (cases "getProp s k")
        case (Inl e')
        then show ?thesis using Cons.prems(1) by (cases s) simp_all
      next
        case (Inr v)
        then show ?thesis
          using Inl IH analyzeScript_Inl [of k _ e]
          by (auto split: option.splits sum.splits if_splits)
      qed
      then show ?thesis using Inl by simp
    next
      case (Inr r')
      have "getProp s k \<noteq> Inl TypeError" using Cons.prems(1) by (cases s) simp_all
      then show ?thesis
        using Inr IH by (auto split: option.splits sum.splits if_splits)
    qed
  qed
qed

lemma scanScripts_good:
  "s \<noteq> JNull \<Longrightarrow> \<not> list_ex (badValue s) ks \<Longrightarrow> \<exists>res'. scanScripts s ks res = Inr res'"
proof (induction ks arbitrary: res)
  case Nil
  then show ?case by simp
next
  case (Cons k ks)
  have IH: "\<exists>res'. scanScripts s ks r = Inr res'" for r
    using Cons by simp
  have nb: "\<not> badValue s k" using Cons.prems(2) by simp
  show ?case
  proof (cases s)
    case (JObject sc)
    show ?thesis
    proof (cases "map_of sc k")
      case None
      then show ?thesis using JObject IH by simp
    next
      case (Some v)
      show ?thesis
      proof (cases "ToBoolean (Some v)")
        case True
        then have "isString v" using nb JObject Some by (simp add: badValue_def)
        then obtain a where "analyzeScript k v = Inr a"
          using analyzeScript_Inr_iff by blast
        then show ?thesis using JObject Some True IH by simp
      next
        case False
        then show ?thesis using JObject Some IH by simp
      qed
    qed
  qed (use Cons.prems(1) IH in simp_all)
qed

lemma scanPackageJson_cases:
  "scanPackageJson fs p =
     (case lookup fs p of
        None \<Rightarrow> Inl NotFound
      | Some (Dir l es) \<Rightarrow> Inl IOError
      | Some (File None) \<Rightarrow> Inl IOError
      | Some (File (Some NotJson)) \<Rightarrow> Inl SyntaxError
      | Some (File (Some (Json j))) \<Rightarrow>
          if j = JNull \<or> malformedScripts j then Inl TypeError
          else scanPackageJson fs p)"
proof (cases "lookup fs p")
  case None
  then show ?thesis by (simp add: scanPackageJson_def existsSync_def)
next
  case (Some n)
  show ?thesis
  proof (cases n)
    case (Dir l es)
    then show ?thesis using Some by (simp add: scanPackageJson_def existsSync_def readFileSync_def)
  next
    case (File c)
    show ?thesis
    proof (cases c)
      case None
      then show ?thesis using Some File by (simp add: scanPackageJson_def existsSync_def readFileSync_def)
    next
      case (Some t)
      note t = Some
      show ?thesis
      proof (cases t)
        case NotJson
        then show ?thesis using \<open>lookup fs p = Some n\<close> File t
          by (simp add: scanPackageJson_def existsSync_def readFileSync_def JSON_parse_def)
      next
        case (Json j)
        have "scanPackageJson fs p = Inl TypeError" if "j = JNull \<or> malformedScripts j"
        proof (cases "j = JNull")
          case True
          then show ?thesis using \<open>lookup fs p = Some n\<close> File t Json
            by (simp add: scanPackageJson_def existsSync_def readFileSync_def JSON_parse_def)
        next
          case False
          then have m: "malformedScripts j" using that by simp
          then obtain ps s where j: "j = JObject ps" and s: "map_of ps ''scripts'' = Some s"
            and bad: "list_ex (badValue s) dangerousScripts"
            by (auto simp: malformedScripts_def split: json.splits option.splits)
          obtain k where "badValue s k" using bad by (auto simp: list_ex_iff)
          then obtain sc where sc: "s = JObject sc"
            by (auto simp: badValue_def split: json.splits)
          have "scanScripts s dangerousScripts r = Inl TypeError" for r
            using scanScripts_bad [OF _ bad] sc by simp
          then show ?thesis
            using \<open>lookup fs p = Some n\<close> File t Json j s sc
            by (simp add: scanPackageJson_def existsSync_def readFileSync_def JSON_parse_def Let_def)
        qed
        then show ?thesis using \<open>lookup fs p = Some n\<close> File t Json by simp
      qed
    qed
  qed
qed

lemma scanPackageJson_returns:
  assumes "lookup fs p = Some (File (Some (Json j)))" "j \<noteq> JNull" "\<not> malformedScripts j"
  shows "\<exists>r. scanPackageJson fs p = Inr r"
proof -
  have g: "\<exists>v. getProp j k = Inr v" for k
    using assms(2) by (cases j) simp_all
  obtain nm ver sc where nm: "getProp j ''name'' = Inr nm" and ver: "getProp j ''version'' = Inr ver"
    and sc: "getProp j ''scripts'' = Inr sc"
    using g by blast
  let ?res0 = "\<lparr>packageName = orUnknown nm, version = orUnknown ver, scripts = [],
                 overallRisk = SAFE, totalMatches = 0, findings = []\<rparr>"
  have "\<exists>res. (case sc of None \<Rightarrow> Inr ?res0
                | Some s \<Rightarrow> if ToBoolean sc then scanScripts s dangerousScripts ?res0 else Inr ?res0)
               = Inr res"
  proof (cases sc)
    case None
    then show ?thesis by simp
  next
    case (Some s)
    show ?thesis
    proof (cases "ToBoolean sc")
      case True
      then have "s \<noteq> JNull" using Some by auto
      moreover have "\<not> list_ex (badValue s) dangerousScripts"
        using assms(3) sc Some by (cases j) (simp_all add: malformedScripts_def)
      ultimately show ?thesis
        using scanScripts_good [of s dangerousScripts ?res0] Some True by simp
    next
      case False
      then show ?thesis using Some by simp
    qed
  qed
  then obtain res where "(case sc of None \<Rightarrow> Inr ?res0
                | Some s \<Rightarrow> if ToBoolean sc then scanScripts s dangerousScripts ?res0 else Inr ?res0)
               = Inr res" by blast
  then show ?thesis
    using assms(1) nm ver sc
    by (simp add: scanPackageJson_def existsSync_def readFileSync_def JSON_parse_def Let_def)
qed

text \<open>
  C9, as the program has it. \<^verbatim>\<open>scanPackageJson\<close> throws its not-found error exactly when
  the path does not exist; a read error exactly when the path is a directory or a file
  that cannot be read; the \<^verbatim>\<open>SyntaxError\<close> of \<^verbatim>\<open>JSON.parse\<close> exactly when the file's text is
  not JSON; a \<^verbatim>\<open>TypeError\<close> exactly when the text parses to \<^verbatim>\<open>null\<close> or to metadata whose
  \<^verbatim>\<open>scripts\<close> object binds a lifecycle key to a truthy value that is not a string; and it
  returns a result in exactly the remaining case.
\<close>

theorem scanPackageJson_outcome:
  "(scanPackageJson fs p = Inl NotFound \<longleftrightarrow> \<not> existsSync fs p) \<and>
   (scanPackageJson fs p = Inl IOError \<longleftrightarrow>
      (\<exists>l es. lookup fs p = Some (Dir l es)) \<or> lookup fs p = Some (File None)) \<and>
   (scanPackageJson fs p = Inl SyntaxError \<longleftrightarrow> lookup fs p = Some (File (Some NotJson))) \<and>
   (scanPackageJson fs p = Inl TypeError \<longleftrightarrow>
      (\<exists>j. lookup fs p = Some (File (Some (Json j))) \<and> (j = JNull \<or> malformedScripts j))) \<and>
   ((\<exists>r. scanPackageJson fs p = Inr r) \<longleftrightarrow>
      (\<exists>j. lookup fs p = Some (File (Some (Json j))) \<and> j \<noteq> JNull \<and> \<not> malformedScripts j))"
proof (cases "\<exists>j. lookup fs p = Some (File (Some (Json j))) \<and> j \<noteq> JNull \<and> \<not> malformedScripts j")
  case True
  then obtain j where j: "lookup fs p = Some (File (Some (Json j)))" "j \<noteq> JNull" "\<not> malformedScripts j"
    by blast
  obtain r where "scanPackageJson fs p = Inr r"
    using scanPackageJson_returns [OF j] by blast
  then show ?thesis
    using j by (auto simp: existsSync_def)
next
  case False
  then show ?thesis
    using scanPackageJson_cases [of fs p]
    by (auto simp: existsSync_def split: option.splits node.splits content.splits if_splits)
qed

theorem scanPackageJson_outcome_witness:
  "existsSync examplePackage [''package.json''] \<and>
   (\<exists>r. scanPackageJson examplePackage [''package.json''] = Inr r) \<and>
   \<not> existsSync examplePackage [''package.lock''] \<and>
   scanPackageJson examplePackage [''package.lock''] = Inl NotFound"
  using scanPackageJson_outcome [of examplePackage "[''package.json'']"]
        scanPackageJson_outcome [of examplePackage "[''package.lock'']"]
  by (simp add: examplePackage_def existsSync_def malformedScripts_def badValue_def dangerousScripts_def)

text \<open>
  C9 as stated fails: this path exists and its content is well-formed JSON, yet the scan
  neither returns nor throws one of the two named errors.
\<close>

theorem scanPackageJson_outcome_counterexample:
  "existsSync brokenPackage [''package.json''] \<and>
   readFileSync brokenPackage [''package.json''] =
     Inr (Json (JObject [(''name'', JString ''broken''),
                         (''scripts'', JObject [(''preinstall'', JString ''ls''),
                                                (''install'', JNumber 5)])])) \<and>
   scanPackageJson brokenPackage [''package.json''] = Inl TypeError"
  by (simp add: brokenPackage_def scan_eval analyze_eval)

text \<open>
  C10. When the metadata is an object whose \<^verbatim>\<open>scripts\<close> object binds a lifecycle key to a
  truthy value that is not a string, \<^verbatim>\<open>scanPackageJson\<close> throws a \<^verbatim>\<open>TypeError\<close>, and the
  block of the tree walk that scans this path adds nothing to the results.
\<close>

theorem scanPackageJson_nonstring_script:
  assumes "lookup fs p = Some (File (Some (Json (JObject ps))))"
    and "map_of ps ''scripts'' = Some (JObject sc)"
    and "k \<in> set dangerousScripts"
    and "map_of sc k = Some v"
    and "ToBoolean (Some v)"
    and "\<not> isString v"
  shows "scanPackageJson fs p = Inl TypeError \<and>
         results (tryScan fs p st) = results st \<and>
         scanned (tryScan fs p st) = scanned st @ [p]"
proof -
  have "badValue (JObject sc) k"
    using assms(4,5,6) by (simp add: badValue_def)
  then have "malformedScripts (JObject ps)"
    using assms(2,3) by (auto simp: malformedScripts_def list_ex_iff)
  then have "scanPackageJson fs p = Inl TypeError"
    using scanPackageJson_cases [of fs p] assms(1) by simp
  then show ?thesis
    using assms(1) by (simp add: tryScan_def existsSync_def Let_def)
qed

theorem scanPackageJson_nonstring_script_witness:
  "lookup brokenPackage [''package.json''] =
     Some (File (Some (Json (JObject [(''name'', JString ''broken''),
                         (''scripts'', JObject [(''preinstall'', JString ''ls''),
                                                (''install'', JNumber 5)])])))) \<and>
   ''install'' \<in> set dangerousScripts \<and> ToBoolean (Some (JNumber 5)) \<and> \<not> isString (JNumber 5) \<and>
   scanPackageJson brokenPackage [''package.json''] = Inl TypeError \<and>
   tryScan brokenPackage [''package.json''] \<lparr>results = [], scanned = []\<rparr>
     = \<lparr>results = [], scanned = [[''package.json'']]\<rparr>"
proof -
  have l: "lookup brokenPackage [''package.json''] =
     Some (File (Some (Json (JObject [(''name'', JString ''broken''),
                         (''scripts'', JObject [(''preinstall'', JString ''ls''),
                                                (''install'', JNumber 5)])]))))"
    by (simp add: brokenPackage_def)
  have k: "''install'' \<in> set dangerousScripts" by (simp add: dangerousScripts_def)
  from scanPackageJson_nonstring_script
         [OF l _ k, where sc = "[(''preinstall'', JString ''ls''), (''install'', JNumber 5)]"
            and v = "JNumber 5" and st = "\<lparr>results = [], scanned = []\<rparr>"]
  have "scanPackageJson brokenPackage [''package.json''] = Inl TypeError \<and>
         results (tryScan brokenPackage [''package.json''] \<lparr>results = [], scanned = []\<rparr>) = [] \<and>
         scanned (tryScan brokenPackage [''package.json''] \<lparr>results = [], scanned = []\<rparr>) = [[''package.json'']]"
    by simp
  then show ?thesis using l k by simp
qed

section \<open>Properties of the tree walk\<close>









lemma toDirent_simps [simp]:
  "name (toDirent (n, c)) = n" "isDirectory (toDirent (n, c)) = isDir c"
  by (simp_all add: toDirent_def)















lemmas walk_eval = scanNodeModules_def readdirSync_def tryScan_def keep_def startsWith_def





text \<open>
  C7 at a tree whose scope directory \<^verbatim>\<open>@locked\<close> cannot be listed and is followed by the
  package \<^verbatim>\<open>evil\<close>. The listing of a scope directory is outside both \<^verbatim>\<open>try\<close> blocks, so the
  walk throws, although the scan of \<^verbatim>\<open>evil\<close> alone returns a result worth reporting. In
  \<open>brokenTree\<close>, where the failures are inside \<^verbatim>\<open>scanPackageJson\<close> (metadata that is not
  JSON, metadata that cannot be read), the walk passes them and reports \<^verbatim>\<open>evil\<close>.
\<close>

theorem scanNodeModules_locked_scope:
  "readdirSync lockedTree [''node_modules'', ''@locked''] = Inl IOError \<and>
   map packageName (contribution lockedTree [''node_modules'', ''evil'', ''package.json''])
     = [JString ''evil''] \<and>
   scanNodeModules lockedTree [''node_modules''] = Inl IOError \<and>
   scanPackageJson brokenTree [''node_modules'', ''bad-json'', ''package.json''] = Inl SyntaxError \<and>
   scanPackageJson brokenTree [''node_modules'', ''unreadable'', ''package.json''] = Inl IOError \<and>
   map_sum id (map packageName \<circ> results) (scanNodeModules brokenTree [''node_modules''])
     = Inr [JString ''evil'']"
  by (simp add: lockedTree_def lockedEntries_def brokenTree_def brokenEntries_def contribution_def
        walk_eval scan_eval analyze_eval)




end
